theory Spec2Isabelle
  imports Main "HOL-Library.Word" "HOL-Library.Sublist"
begin

section \<open>Constants of API\_Key\_Generator.c\<close>

text \<open>
  The three macros and the character set of the source. \<open>charset\<close> is a C array
  initialised from a string literal, so \<open>sizeof(charset)\<close> counts the terminating NUL.
\<close>

definition KEY_LENGTH :: nat where
  "KEY_LENGTH = 32"

definition MAX_LINE_LENGTH :: nat where
  "MAX_LINE_LENGTH = 1024"

definition charset :: string where
  "charset = ''ABCDEFGHIJKLMNOPQRSTUVWXYZabcdefghijklmnopqrstuvwxyz0123456789''"

definition sizeof_charset :: nat where
  "sizeof_charset = length charset + 1"

abbreviation NUL :: char where
  "NUL \<equiv> CHR 0x00"

abbreviation LF :: char where
  "LF \<equiv> CHR 0x0A"

abbreviation CR :: char where
  "CR \<equiv> CHR 0x0D"

section \<open>The environment of one run\<close>

text \<open>
  The properties file as the two \<open>fopen\<close> calls and the writes see it: whether it
  opens for reading, its bytes, whether it opens for writing, and whether the writes go
  through. \<open>write_fails\<close> is \<open>None\<close> when every \<open>fprintf\<close> and the \<open>fclose\<close> of
  the stream opened for writing succeed; it is \<open>Some n\<close> when one of them fails, the
  file then holding the first \<open>n\<close> bytes of what the program wrote (all of them when
  there are fewer). The source checks none of these calls. It does not check \<open>fgets\<close>
  either; the model takes a stream that opened for reading to deliver all its bytes.
\<close>

record props_file =
  readable :: bool
  content :: string
  writable :: bool
  write_fails :: "nat option"

text \<open>
  The entropy device: whether \<open>open\<close> succeeds and what \<open>read\<close> delivers
  (\<open>None\<close> is the return value -1, \<open>Some bs\<close> the bytes stored into the buffer).
  \<open>stack\<close> is what the variable-length array \<open>buffer\<close> holds before the call,
  byte by byte: the source never initialises it.
\<close>

record world =
  urandom_opens :: bool
  urandom_read :: "8 word list option"
  stack :: "nat \<Rightarrow> 8 word"
  props :: props_file

text \<open>
  A line on the error channel. \<open>perror s\<close> prints \<open>s\<close>, a colon and the text of
  \<open>errno\<close>; \<open>Perror s\<close> stands for that line.
\<close>

datatype out = Perror string | Text string

text \<open>A function that may call \<open>exit\<close> instead of returning.\<close>

datatype 'a run = Exited int "out list" | Returned 'a

section \<open>generate\_api\_key\<close>

text \<open>
  \<open>read(fd, buffer, length)\<close>: at most \<open>length\<close> bytes are stored from the start
  of the buffer, the rest of the buffer keeps what it held. The source ignores the
  return value.
\<close>

definition read_into :: "8 word list option \<Rightarrow> nat \<Rightarrow> (nat \<Rightarrow> 8 word) \<Rightarrow> (nat \<Rightarrow> 8 word)" where
  "read_into r count buf =
     (case r of
        None \<Rightarrow> buf
      | Some bs \<Rightarrow> (\<lambda>i. if i < min count (length bs) then bs ! i else buf i))"

definition generate_api_key :: "world \<Rightarrow> nat \<Rightarrow> string run" where
  "generate_api_key w len =
     (if \<not> urandom_opens w then Exited 1 [Perror ''Error while opening /dev/urandom'']
      else
        let buffer = read_into (urandom_read w) len (stack w)
        in Returned (map (\<lambda>i. charset ! (unat (buffer i) mod (sizeof_charset - 1))) [0..<len]))"

section \<open>add\_key\_to\_properties\<close>

subsection \<open>The C library calls\<close>

text \<open>
  \<open>fgets(line, size, file)\<close> on the bytes still unread: NULL at end of file, else
  the bytes up to and including the first line feed, at most \<open>size - 1\<close> of them,
  and the bytes left in the stream.
\<close>

fun fgets_chars :: "nat \<Rightarrow> string \<Rightarrow> string \<times> string" where
  "fgets_chars n [] = ([], [])"
| "fgets_chars n (c # cs) =
     (if n = 0 then ([], c # cs)
      else if c = LF then ([c], cs)
      else (case fgets_chars (n - 1) cs of (a, r) \<Rightarrow> (c # a, r)))"

definition fgets :: "nat \<Rightarrow> string \<Rightarrow> (string \<times> string) option" where
  "fgets n s = (if s = [] then None else Some (fgets_chars (n - 1) s))"

text \<open>A buffer read as a C string ends at its first NUL byte.\<close>

definition c_str :: "string \<Rightarrow> string" where
  "c_str buf = takeWhile (\<lambda>c. c \<noteq> NUL) buf"

text \<open>
  \<open>strncmp(a, b, n) == 0\<close> on two C strings: equal up to the end of both or up to
  \<open>n\<close> characters.
\<close>

fun strncmp_eq :: "string \<Rightarrow> string \<Rightarrow> nat \<Rightarrow> bool" where
  "strncmp_eq a b 0 = True"
| "strncmp_eq [] [] (Suc n) = True"
| "strncmp_eq (x # xs) (y # ys) (Suc n) = (x = y \<and> strncmp_eq xs ys n)"
| "strncmp_eq _ _ (Suc n) = False"

text \<open>
  \<open>snprintf(buf, size, ...)\<close>: the formatted text cut to \<open>size - 1\<close> characters. A
  \<open>%s\<close> argument contributes its characters as a C string.
\<close>

definition snprintf :: "nat \<Rightarrow> string \<Rightarrow> string" where
  "snprintf n s = take (n - 1) s"

text \<open>
  Source line 84, \<open>key_line_index = num_lines\<close>, stores a \<open>size_t\<close> in an \<open>int\<close>:
  the value is reduced to the 32 bits of \<open>int\<close> and read in two's complement (what
  the usual compilers do where the C standard leaves the result to the implementation).
\<close>

definition int_of_size_t :: "nat \<Rightarrow> int" where
  "int_of_size_t n = sint (word_of_nat n :: 32 word)"

subsection \<open>The read phase\<close>

definition keys_prefix :: string where
  "keys_prefix = ''api.security.keys=''"

definition is_keys_line :: "string \<Rightarrow> bool" where
  "is_keys_line line = strncmp_eq line keys_prefix 18"

text \<open>Source lines 77 to 80: drop one trailing line feed.\<close>

definition chomp :: "string \<Rightarrow> string" where
  "chomp line =
     (let len = length line
      in if len > 0 \<and> line ! (len - 1) = LF then take (len - 1) line else line)"

lemma fgets_chars_shorter:
  "fgets_chars n s = (a, r) \<Longrightarrow> 0 < n \<Longrightarrow> s \<noteq> [] \<Longrightarrow> length r < length s"
proof (induction s arbitrary: n a r)
  case Nil
  then show ?case by simp
next
  case (Cons c cs)
  show ?case
  proof (cases "c = LF")
    case True
    with Cons.prems show ?thesis by simp
  next
    case False
    obtain a' r' where ar: "fgets_chars (n - 1) cs = (a', r')"
      by (cases "fgets_chars (n - 1) cs")
    with Cons.prems False have r: "r = r'" by simp
    show ?thesis
    proof (cases "n - 1 = 0 \<or> cs = []")
      case True
      with ar have "length r' \<le> length cs" by (cases cs) auto
      with r show ?thesis by simp
    next
      case False
      with Cons.IH [OF ar] have "length r' < length cs" by simp
      with r show ?thesis by simp
    qed
  qed
qed

text \<open>
  The \<open>while (fgets(...))\<close> loop of source lines 69 to 90. \<open>lines\<close> is the array of
  stored lines (\<open>num_lines\<close> is its length), \<open>key_line_index\<close> is the C \<open>int\<close> that
  starts at -1. The array grows as needed; allocation is taken to succeed.
\<close>

function read_loop :: "string \<Rightarrow> string list \<Rightarrow> int \<Rightarrow> string list \<times> int" where
  "read_loop file lines key_line_index =
     (case fgets MAX_LINE_LENGTH file of
        None \<Rightarrow> (lines, key_line_index)
      | Some (buf, rest) \<Rightarrow>
          let line = chomp (c_str buf);
              key_line_index' =
                (if is_keys_line line then int_of_size_t (length lines) else key_line_index)
          in read_loop rest (lines @ [line]) key_line_index')"
  by pat_completeness auto
termination
proof (relation "measure (\<lambda>(s, ls, k). length s)")
  show "wf (measure (\<lambda>(s, ls, k). length s))"
    by simp
next
  fix s :: string and ls :: "string list" and k k' :: int
    and x2 :: "string \<times> string" and buf rest l :: string
  assume "fgets MAX_LINE_LENGTH s = Some x2" and "(buf, rest) = x2"
  then have "fgets_chars (MAX_LINE_LENGTH - 1) s = (buf, rest)" and "s \<noteq> []"
    by (auto simp: fgets_def split: if_splits)
  then have "length rest < length s"
    using fgets_chars_shorter [of "MAX_LINE_LENGTH - 1" s buf rest]
    by (simp add: MAX_LINE_LENGTH_def)
  then show "((rest, ls @ [l], k'), s, ls, k) \<in> measure (\<lambda>(s, ls, k). length s)"
    by simp
qed

declare read_loop.simps [simp del]

subsection \<open>The edit and the write phase\<close>

text \<open>Source lines 126 to 129: every stored line, each followed by a line feed.\<close>

definition write_lines :: "string list \<Rightarrow> string" where
  "write_lines ls = concat (map (\<lambda>l. l @ [LF]) ls)"

record edit_result =
  ret :: int
  rewritten :: "string option"
  diag :: "out list"

text \<open>
  \<open>rewritten\<close> is \<open>None\<close> when the file was never opened for writing, else the bytes
  that replaced its content: all that was written, or the part that reached the file
  when a write failed.
\<close>

definition fprintf_all :: "nat option \<Rightarrow> string \<Rightarrow> string" where
  "fprintf_all fails bytes = (case fails of None \<Rightarrow> bytes | Some n \<Rightarrow> take n bytes)"

text \<open>
  Source lines 106 to 110 index the array with \<open>key_line_index\<close>. An index that the
  conversion to \<open>int\<close> made negative lies outside the array, which is undefined
  behaviour in C; the model leaves the stored lines as they are there. Every statement
  below about the rewritten line bounds the index, so that the case does not arise.
\<close>

definition add_key_to_properties :: "string \<Rightarrow> props_file \<Rightarrow> edit_result" where
  "add_key_to_properties api_key f =
     (if \<not> readable f then
        \<lparr>ret = 1, rewritten = None,
         diag = [Perror ''Error opening application.properties for reading'']\<rparr>
      else
        case read_loop (content f) [] (- 1) of (lines, key_line_index) \<Rightarrow>
          let (lines', warning) =
                (if key_line_index = - 1 then
                   (lines @ [snprintf MAX_LINE_LENGTH (''api.security.keys='' @ c_str api_key)],
                    [Text ''Warning: api.security.keys line not found, adding new line''])
                 else if 0 \<le> key_line_index \<and> nat key_line_index < length lines then
                   let old_line = lines ! nat key_line_index
                   in (lines[nat key_line_index :=
                         snprintf MAX_LINE_LENGTH (c_str old_line @ '','' @ c_str api_key)],
                       [])
                 else (lines, []))
          in if \<not> writable f then
               \<lparr>ret = 1, rewritten = None,
                diag = warning @ [Perror ''Error opening application.properties for writing'']\<rparr>
             else
               \<lparr>ret = 0,
                rewritten = Some (fprintf_all (write_fails f) (write_lines lines')),
                diag = warning\<rparr>)"

section \<open>main\<close>

record outcome =
  exit_status :: int
  stdout :: "string list"
  stderr :: "out list"
  written :: "string option"

text \<open>
  \<open>written\<close> is \<open>None\<close> when the run never opened the properties file for writing,
  else the bytes that replaced its content.
\<close>

definition main :: "world \<Rightarrow> outcome" where
  "main w =
     (case generate_api_key w KEY_LENGTH of
        Exited st errs \<Rightarrow>
          \<lparr>exit_status = st, stdout = [], stderr = errs, written = None\<rparr>
      | Returned api_key \<Rightarrow>
          let r = add_key_to_properties api_key (props w)
          in if ret r = 0 then
               \<lparr>exit_status = 0,
                stdout = [''Generated API Key: '' @ api_key,
                          ''API Key successfully added to application.properties''],
                stderr = diag r, written = rewritten r\<rparr>
             else
               \<lparr>exit_status = 1,
                stdout = [''Generated API Key: '' @ api_key],
                stderr = diag r @ [Text ''Failed to add API Key to application.properties''],
                written = rewritten r\<rparr>)"

section \<open>The notions of the specification\<close>

text \<open>
  The lines of a file as the specification speaks of them: the runs of bytes between
  line feeds, the last one counted when the file does not end in a line feed. Only the
  line feed ends a line; a carriage return before it belongs to the line.
\<close>

fun split_lines :: "string \<Rightarrow> string \<Rightarrow> string list" where
  "split_lines cur [] = (if cur = [] then [] else [cur])"
| "split_lines cur (c # cs) =
     (if c = LF then cur # split_lines [] cs else split_lines (cur @ [c]) cs)"

definition file_lines :: "string \<Rightarrow> string list" where
  "file_lines s = split_lines [] s"

text \<open>
  A text file within the limits of the line buffer: no NUL byte, and every line short
  enough to reach the buffer of \<open>MAX_LINE_LENGTH\<close> bytes together with its line feed
  and the terminating NUL.
\<close>

definition text_line :: "string \<Rightarrow> bool" where
  "text_line l = (length l + 2 \<le> MAX_LINE_LENGTH \<and> list_all (\<lambda>c. c \<noteq> NUL) l)"

definition text_file :: "string \<Rightarrow> bool" where
  "text_file s = list_all text_line (file_lines s)"

text \<open>
  A line that the line buffer holds in one piece: at most \<open>MAX_LINE_LENGTH - 1\<close>
  bytes, none of them NUL.
\<close>

definition plain_line :: "string \<Rightarrow> bool" where
  "plain_line l = (length l < MAX_LINE_LENGTH \<and> list_all (\<lambda>c. c \<noteq> NUL) l)"

text \<open>A token of the data model: \<open>KEY_LENGTH\<close> characters of the alphabet.\<close>

definition is_token :: "string \<Rightarrow> bool" where
  "is_token t = (length t = KEY_LENGTH \<and> list_all (\<lambda>c. c \<in> set charset) t)"




section \<open>The read loop on the stored lines\<close>

text \<open>
  The lines the read loop stores, and the index it remembers as a function of them:
  \<open>n\<close> is the number of lines stored before, \<open>k\<close> the index remembered so far.
\<close>

function stored_lines :: "string \<Rightarrow> string list" where
  "stored_lines file =
     (case fgets MAX_LINE_LENGTH file of
        None \<Rightarrow> []
      | Some (buf, rest) \<Rightarrow> chomp (c_str buf) # stored_lines rest)"
  by pat_completeness auto
termination
proof (relation "measure length")
  show "wf (measure length)"
    by simp
next
  fix s :: string and x2 :: "string \<times> string" and buf rest :: string
  assume "fgets MAX_LINE_LENGTH s = Some x2" and "(buf, rest) = x2"
  then have "fgets_chars (MAX_LINE_LENGTH - 1) s = (buf, rest)" and "s \<noteq> []"
    by (auto simp: fgets_def split: if_splits)
  then have "length rest < length s"
    using fgets_chars_shorter [of "MAX_LINE_LENGTH - 1" s buf rest]
    by (simp add: MAX_LINE_LENGTH_def)
  then show "(rest, s) \<in> measure length"
    by simp
qed

declare stored_lines.simps [simp del]

fun keys_index :: "nat \<Rightarrow> int \<Rightarrow> string list \<Rightarrow> int" where
  "keys_index n k [] = k"
| "keys_index n k (l # ls) =
     keys_index (Suc n) (if is_keys_line l then int_of_size_t n else k) ls"

section \<open>Auxiliary facts\<close>

lemma strncmp_eq_take: "strncmp_eq a b n \<longleftrightarrow> take n a = take n b"
  by (induction a b n rule: strncmp_eq.induct) auto

lemma is_keys_line_iff: "is_keys_line l \<longleftrightarrow> take 18 l = keys_prefix"
  by (simp add: is_keys_line_def strncmp_eq_take keys_prefix_def)

lemma is_keys_line_append: "is_keys_line (keys_prefix @ v)"
  by (simp add: is_keys_line_iff keys_prefix_def)

lemma fgets_chars_line:
  "LF \<notin> set l \<Longrightarrow> length l < n \<Longrightarrow> fgets_chars n (l @ LF # rest) = (l @ [LF], rest)"
  by (induction l arbitrary: n) auto

lemma fgets_chars_last:
  "LF \<notin> set l \<Longrightarrow> length l \<le> n \<Longrightarrow> fgets_chars n l = (l, [])"
  by (induction l arbitrary: n) auto

lemma fgets_chars_full:
  "LF \<notin> set l \<Longrightarrow> fgets_chars (length l) (l @ rest) = (l, rest)"
  by (induction l) (auto, (cases rest; simp))

lemma c_str_id: "NUL \<notin> set l \<Longrightarrow> c_str l = l"
  by (auto simp: c_str_def)

lemma chomp_LF: "chomp (l @ [LF]) = l"
  by (simp add: chomp_def)

lemma chomp_id: "LF \<notin> set l \<Longrightarrow> chomp l = l"
  by (cases l rule: rev_cases) (auto simp: chomp_def)

lemma split_lines_line:
  "LF \<notin> set l \<Longrightarrow> split_lines cur (l @ LF # rest) = (cur @ l) # split_lines [] rest"
  by (induction l arbitrary: cur) auto

lemma split_lines_last:
  "LF \<notin> set l \<Longrightarrow> split_lines cur l = (if cur @ l = [] then [] else [cur @ l])"
  by (induction l arbitrary: cur) auto

lemma file_lines_line:
  "LF \<notin> set l \<Longrightarrow> file_lines (l @ LF # rest) = l # file_lines rest"
  by (simp add: file_lines_def split_lines_line)

lemma file_lines_last:
  "LF \<notin> set l \<Longrightarrow> l \<noteq> [] \<Longrightarrow> file_lines l = [l]"
  by (simp add: file_lines_def split_lines_last)

lemma file_lines_Nil: "file_lines [] = []"
  by (simp add: file_lines_def)

lemma file_lines_write_lines:
  "\<forall>l\<in>set ls. LF \<notin> set l \<Longrightarrow> file_lines (write_lines ls) = ls"
  by (induction ls) (auto simp: write_lines_def file_lines_Nil file_lines_line)

lemma first_line_split:
  "LF \<in> set s \<Longrightarrow> \<exists>l rest. LF \<notin> set l \<and> s = l @ LF # rest"
  by (metis split_list_first)

lemma text_file_Cons:
  "LF \<notin> set l \<Longrightarrow> text_file (l @ LF # rest) \<longleftrightarrow> text_line l \<and> text_file rest"
  by (simp add: text_file_def file_lines_line)

lemma text_line_NUL: "text_line l \<Longrightarrow> NUL \<notin> set l"
  by (auto simp: text_line_def list_all_iff)

lemma text_line_length: "text_line l \<Longrightarrow> length l < MAX_LINE_LENGTH - 1"
  by (simp add: text_line_def MAX_LINE_LENGTH_def)

lemma fgets_line:
  assumes "LF \<notin> set l" "text_line l"
  shows "fgets MAX_LINE_LENGTH (l @ LF # rest) = Some (l @ [LF], rest)"
  using assms text_line_length [OF assms(2)] by (simp add: fgets_def fgets_chars_line)

lemma fgets_last:
  assumes "LF \<notin> set l" "text_line l" "l \<noteq> []"
  shows "fgets MAX_LINE_LENGTH l = Some (l, [])"
  using assms text_line_length [OF assms(2)] by (simp add: fgets_def fgets_chars_last)

lemma read_loop_Nil: "read_loop [] ls k = (ls, k)"
  by (subst read_loop.simps) (simp add: fgets_def)

lemma int_of_size_t_small:
  assumes "n < 2 ^ 31"
  shows "int_of_size_t n = int n"
proof -
  have "int n < int (2 ^ 31)"
    using assms by (simp only: of_nat_less_iff)
  then have "int n < 2 ^ 31"
    by simp
  moreover have "- (2 ^ 31) \<le> int n"
    by (rule order_trans [of _ 0]) simp_all
  ultimately have "signed_take_bit 31 (int n) = int n"
    by (rule signed_take_bit_int_eq_self [rotated])
  moreover have "sint (word_of_nat n :: 32 word) = signed_take_bit 31 (int n)"
    using signed_of_nat [where ?'b = 32 and ?'a = int, of n] by simp
  ultimately show ?thesis
    by (simp only: int_of_size_t_def)
qed

lemma stored_lines_Nil: "stored_lines [] = []"
  by (subst stored_lines.simps) (simp add: fgets_def)

lemma stored_lines_step:
  "fgets MAX_LINE_LENGTH s = Some (buf, rest) \<Longrightarrow>
   stored_lines s = chomp (c_str buf) # stored_lines rest"
  by (subst stored_lines.simps) simp

lemma read_loop_step:
  "fgets MAX_LINE_LENGTH s = Some (buf, rest) \<Longrightarrow>
   read_loop s ls k =
     read_loop rest (ls @ [chomp (c_str buf)])
       (if is_keys_line (chomp (c_str buf)) then int_of_size_t (length ls) else k)"
  by (subst read_loop.simps) (simp add: Let_def)

lemma fgets_shorter:
  assumes "fgets MAX_LINE_LENGTH s = Some (buf, rest)"
  shows "length rest < length s"
proof -
  from assms have "fgets_chars (MAX_LINE_LENGTH - 1) s = (buf, rest)" and "s \<noteq> []"
    by (auto simp: fgets_def split: if_splits)
  then show ?thesis
    using fgets_chars_shorter [of "MAX_LINE_LENGTH - 1" s buf rest]
    by (simp add: MAX_LINE_LENGTH_def)
qed

lemma fgets_None: "fgets MAX_LINE_LENGTH s = None \<Longrightarrow> s = []"
  by (simp add: fgets_def split: if_splits)

lemma read_loop_stored:
  "read_loop s ls k = (ls @ stored_lines s, keys_index (length ls) k (stored_lines s))"
proof (induction s arbitrary: ls k rule: length_induct)
  case (1 s)
  show ?case
  proof (cases "fgets MAX_LINE_LENGTH s")
    case None
    then have "s = []" by (rule fgets_None)
    then show ?thesis
      by (simp add: read_loop_Nil stored_lines_Nil)
  next
    case (Some br)
    then obtain buf rest where f: "fgets MAX_LINE_LENGTH s = Some (buf, rest)"
      by (cases br) simp
    have "length rest < length s"
      using f by (rule fgets_shorter)
    with "1.IH" have "read_loop rest ls' k' =
        (ls' @ stored_lines rest, keys_index (length ls') k' (stored_lines rest))" for ls' k'
      by blast
    then show ?thesis
      by (simp add: read_loop_step [OF f] stored_lines_step [OF f])
  qed
qed

lemma stored_lines_line:
  assumes "LF \<notin> set l" "text_line l"
  shows "stored_lines (l @ LF # rest) = l # stored_lines rest"
proof -
  have "c_str (l @ [LF]) = l @ [LF]"
    using text_line_NUL [OF assms(2)] by (simp add: c_str_id)
  then show ?thesis
    by (simp add: stored_lines_step [OF fgets_line [OF assms]] chomp_LF)
qed

lemma stored_lines_last:
  assumes "LF \<notin> set l" "text_line l" "l \<noteq> []"
  shows "stored_lines l = [l]"
proof -
  have "c_str l = l"
    using text_line_NUL [OF assms(2)] by (simp add: c_str_id)
  then show ?thesis
    by (simp add: stored_lines_step [OF fgets_last [OF assms]] chomp_id [OF assms(1)]
        stored_lines_Nil)
qed

lemma stored_lines_chunk:
  assumes "LF \<notin> set c" and "NUL \<notin> set c" and "length c = MAX_LINE_LENGTH - 1"
  shows "stored_lines (c @ rest) = c # stored_lines rest"
proof -
  from assms(3) have "c \<noteq> []" by (auto simp: MAX_LINE_LENGTH_def)
  then have "fgets MAX_LINE_LENGTH (c @ rest) = Some (c, rest)"
    using fgets_chars_full [OF assms(1), of rest] assms(3) by (simp add: fgets_def)
  then show ?thesis
    by (simp add: stored_lines_step c_str_id [OF assms(2)] chomp_id [OF assms(1)])
qed

lemma stored_lines_text: "text_file s \<Longrightarrow> stored_lines s = file_lines s"
proof (induction s rule: length_induct)
  case (1 s)
  show ?case
  proof (cases "LF \<in> set s")
    case True
    then obtain l rest where s: "s = l @ LF # rest" and l: "LF \<notin> set l"
      using first_line_split by blast
    from "1.prems" s l have tl: "text_line l" and tr: "text_file rest"
      by (simp_all add: text_file_Cons)
    have "length rest < length s" using s by simp
    with "1.IH" tr have "stored_lines rest = file_lines rest"
      by blast
    then show ?thesis
      by (simp add: s stored_lines_line [OF l tl] file_lines_line [OF l])
  next
    case False
    show ?thesis
    proof (cases "s = []")
      case True
      then show ?thesis by (simp add: stored_lines_Nil file_lines_Nil)
    next
      case nonempty: False
      from "1.prems" False nonempty have "text_line s"
        by (simp add: text_file_def file_lines_last)
      then show ?thesis
        by (simp add: stored_lines_last [OF False _ nonempty] file_lines_last [OF False nonempty])
    qed
  qed
qed

lemma keys_index_none:
  "\<forall>l\<in>set ls. \<not> is_keys_line l \<Longrightarrow> keys_index n k ls = k"
  by (induction ls arbitrary: n k) auto

lemma keys_index_last:
  "i < length ls \<Longrightarrow> is_keys_line (ls ! i) \<Longrightarrow>
   \<forall>j. i < j \<and> j < length ls \<longrightarrow> \<not> is_keys_line (ls ! j) \<Longrightarrow>
   n + i < 2 ^ 31 \<Longrightarrow> keys_index n k ls = int (n + i)"
proof (induction ls arbitrary: n k i)
  case Nil
  then show ?case by simp
next
  case (Cons l ls)
  show ?case
  proof (cases i)
    case 0
    have "\<not> is_keys_line x" if "x \<in> set ls" for x
    proof -
      from that obtain j where "j < length ls" "x = ls ! j"
        by (auto simp: in_set_conv_nth)
      with Cons.prems(3) 0 show ?thesis
        by (auto dest: spec [of _ "Suc j"])
    qed
    then have "\<forall>x\<in>set ls. \<not> is_keys_line x" by blast
    moreover have "int_of_size_t n = int n"
      using Cons.prems(4) 0 by (intro int_of_size_t_small) simp
    ultimately show ?thesis
      using 0 Cons.prems(2) by (simp add: keys_index_none)
  next
    case (Suc i')
    with Cons.prems have "i' < length ls" "is_keys_line (ls ! i')"
      "\<forall>j. i' < j \<and> j < length ls \<longrightarrow> \<not> is_keys_line (ls ! j)" "Suc n + i' < 2 ^ 31"
      by auto
    from Cons.IH [OF this] Suc show ?thesis by simp
  qed
qed

lemma last_keys_line_exists:
  "\<exists>l\<in>set ls. is_keys_line l \<Longrightarrow>
   \<exists>k<length ls. is_keys_line (ls ! k) \<and> (\<forall>j. k < j \<and> j < length ls \<longrightarrow> \<not> is_keys_line (ls ! j))"
proof (induction ls rule: rev_induct)
  case Nil
  then show ?case by simp
next
  case (snoc x xs)
  show ?case
  proof (cases "is_keys_line x")
    case True
    then have "is_keys_line ((xs @ [x]) ! length xs)" by simp
    then show ?thesis by (intro exI [of _ "length xs"]) auto
  next
    case False
    with snoc.prems have "\<exists>l\<in>set xs. is_keys_line l" by auto
    from snoc.IH [OF this] obtain k where k: "k < length xs" "is_keys_line (xs ! k)"
      "\<forall>j. k < j \<and> j < length xs \<longrightarrow> \<not> is_keys_line (xs ! j)" by blast
    have "\<forall>j. k < j \<and> j < length (xs @ [x]) \<longrightarrow> \<not> is_keys_line ((xs @ [x]) ! j)"
      using k(3) False by (auto simp: nth_append)
    with k(1,2) show ?thesis
      by (intro exI [of _ k]) (simp add: nth_append)
  qed
qed

lemma is_token_length: "is_token t \<Longrightarrow> length t = 32"
  by (simp add: is_token_def KEY_LENGTH_def)

lemma charset_excludes:
  "NUL \<notin> set charset" "LF \<notin> set charset" "CHR '','' \<notin> set charset"
  by (simp_all add: charset_def)

lemma is_token_subset: "is_token t \<Longrightarrow> set t \<subseteq> set charset"
  by (auto simp: is_token_def list_all_iff)

lemma is_token_chars:
  assumes "is_token t"
  shows "NUL \<notin> set t" and "LF \<notin> set t" and "CHR '','' \<notin> set t"
  using is_token_subset [OF assms] charset_excludes by blast+


lemma charset_nth_mem: "n < 62 \<Longrightarrow> charset ! n \<in> set charset"
  by (simp add: charset_def del: set_simps)

lemma read_into_Some:
  "i < n \<Longrightarrow> length bs = n \<Longrightarrow> read_into (Some bs) n buf i = bs ! i"
  by (simp add: read_into_def)








lemma snprintf_LF_free: "LF \<notin> set s \<Longrightarrow> LF \<notin> set (snprintf n s)"
  by (auto simp: snprintf_def dest: in_set_takeD)

lemma list_update_LF_free:
  "\<forall>l\<in>set ls. LF \<notin> set l \<Longrightarrow> LF \<notin> set x \<Longrightarrow> \<forall>l\<in>set (ls[k := x]). LF \<notin> set l"
  by (metis insertE set_update_subset_insert subsetD)

lemma take_prefix: "length a = n \<Longrightarrow> take n (a @ b) = a"
  by simp

lemma text_file_single: "LF \<notin> set l \<Longrightarrow> text_line l \<Longrightarrow> text_file (l @ [LF])"
  using text_file_Cons [of l "[]"] by (simp add: text_file_def file_lines_Nil)

lemma file_lines_single: "LF \<notin> set l \<Longrightarrow> file_lines (l @ [LF]) = [l]"
  using file_lines_line [of l "[]"] by (simp add: file_lines_Nil)



lemma keys_prefix_LF_free: "LF \<notin> set keys_prefix"
  by (simp add: keys_prefix_def)

lemma not_keys_replicate: "\<not> is_keys_line (replicate n (CHR ''x''))"
proof
  assume "is_keys_line (replicate n (CHR ''x''))"
  then have "take 18 (replicate n (CHR ''x'')) = keys_prefix"
    by (simp add: is_keys_line_iff)
  then have "set keys_prefix \<subseteq> set (replicate n (CHR ''x''))"
    by (metis set_take_subset)
  then have "set keys_prefix \<subseteq> {CHR ''x''}"
    by (auto split: if_splits)
  then show False
    by (simp add: keys_prefix_def)
qed

lemma file_lines_long_line:
  "file_lines (replicate n (CHR ''x'') @ [LF]) = [replicate n (CHR ''x'')]"
  by (rule file_lines_single) simp



lemma fgets_chars_shape:
  "fgets_chars n s = (a, r) \<Longrightarrow>
   s = a @ r \<and> length a \<le> n \<and> LF \<notin> set (butlast a)
   \<and> (r = [] \<or> length a = n \<or> (a \<noteq> [] \<and> last a = LF))"
proof (induction s arbitrary: n a r)
  case Nil
  then show ?case by simp
next
  case (Cons c cs)
  show ?case
  proof (cases "n = 0 \<or> c = LF")
    case True
    with Cons.prems show ?thesis by (auto split: if_splits)
  next
    case False
    obtain a' r' where ar: "fgets_chars (n - 1) cs = (a', r')"
      by (cases "fgets_chars (n - 1) cs")
    with Cons.prems False have a: "a = c # a'" and r: "r = r'" by simp_all
    from Cons.IH [OF ar] have IH: "cs = a' @ r'" "length a' \<le> n - 1"
      "LF \<notin> set (butlast a')" "r' = [] \<or> length a' = n - 1 \<or> (a' \<noteq> [] \<and> last a' = LF)"
      by simp_all
    from False IH(2) have "length a \<le> n" by (cases n) (simp_all add: a)
    moreover from False IH(3) have "LF \<notin> set (butlast a)" by (auto simp: a)
    moreover from False IH(4) have "r = [] \<or> length a = n \<or> (a \<noteq> [] \<and> last a = LF)"
      by (auto simp: a r)
    ultimately show ?thesis
      using IH(1) by (simp add: a r)
  qed
qed

lemma fgets_cases:
  assumes "fgets MAX_LINE_LENGTH s = Some (buf, rest)"
  obtains (line) l where "buf = l @ [LF]" and "LF \<notin> set l" and "s = l @ LF # rest"
      and "length l < MAX_LINE_LENGTH - 1"
    | (piece) "LF \<notin> set buf" and "s = buf @ rest" and "buf \<noteq> []"
      and "length buf = MAX_LINE_LENGTH - 1 \<or> rest = []"
proof -
  from assms have f: "fgets_chars (MAX_LINE_LENGTH - 1) s = (buf, rest)" and s: "s \<noteq> []"
    by (auto simp: fgets_def split: if_splits)
  from fgets_chars_shape [OF f] have sh: "s = buf @ rest" "length buf \<le> MAX_LINE_LENGTH - 1"
    "LF \<notin> set (butlast buf)"
    "rest = [] \<or> length buf = MAX_LINE_LENGTH - 1 \<or> (buf \<noteq> [] \<and> last buf = LF)"
    by simp_all
  have ne: "buf \<noteq> []"
    using sh(1,4) s by (auto simp: MAX_LINE_LENGTH_def)
  show thesis
  proof (cases "last buf = LF")
    case True
    with ne have b: "buf = butlast buf @ [LF]"
      by (metis append_butlast_last_id)
    moreover have "length (butlast buf) < MAX_LINE_LENGTH - 1"
      using sh(2) ne by (cases buf rule: rev_cases) auto
    moreover have "s = butlast buf @ LF # rest"
      using sh(1) b by (metis append.assoc append_Cons append_Nil)
    ultimately show ?thesis
      using sh(3) by (intro line [of "butlast buf"])
  next
    case False
    with ne sh(3) have "LF \<notin> set buf"
      by (cases buf rule: rev_cases) auto
    moreover from False sh(4) have "length buf = MAX_LINE_LENGTH - 1 \<or> rest = []"
      by auto
    ultimately show ?thesis
      using sh(1) ne by (intro piece)
  qed
qed


lemma c_str_NUL_free: "NUL \<notin> set (c_str x)"
  by (auto simp: c_str_def dest: set_takeWhileD)

lemma c_str_subset: "set (c_str x) \<subseteq> set x"
  by (auto simp: c_str_def dest: set_takeWhileD)

lemma c_str_line: "LF \<notin> set l \<Longrightarrow> chomp (c_str (l @ [LF])) = c_str l"
proof (cases "NUL \<in> set l")
  case True
  assume "LF \<notin> set l"
  moreover from True have "c_str (l @ [LF]) = c_str l"
    by (simp add: c_str_def)
  ultimately show ?thesis
    using c_str_subset [of l] by (simp only: ) (rule chomp_id, blast)
next
  case False
  then show ?thesis
    by (simp add: c_str_id chomp_LF)
qed

lemma c_str_piece: "LF \<notin> set b \<Longrightarrow> chomp (c_str b) = c_str b"
  using c_str_subset [of b] by (intro chomp_id) auto





lemma stored_pieces_free:
  "p \<in> set (stored_lines s) \<Longrightarrow> LF \<notin> set p \<and> NUL \<notin> set p"
proof (induction s rule: length_induct)
  case (1 s)
  show ?case
  proof (cases "fgets MAX_LINE_LENGTH s")
    case None
    then have "s = []" by (rule fgets_None)
    with "1.prems" show ?thesis
      by (simp add: stored_lines_Nil)
  next
    case (Some br)
    then obtain buf rest where f: "fgets MAX_LINE_LENGTH s = Some (buf, rest)"
      by (cases br) simp
    from "1.prems" have p: "p = chomp (c_str buf) \<or> p \<in> set (stored_lines rest)"
      by (simp add: stored_lines_step [OF f])
    have first: "LF \<notin> set (chomp (c_str buf)) \<and> NUL \<notin> set (chomp (c_str buf))"
      using f
    proof (cases rule: fgets_cases)
      case (line l)
      then show ?thesis
        using c_str_subset [of l] c_str_NUL_free [of l] by (auto simp: c_str_line)
    next
      case piece
      then show ?thesis
        using c_str_subset [of buf] c_str_NUL_free [of buf] by (auto simp: c_str_piece)
    qed
    from p show ?thesis
    proof
      assume "p = chomp (c_str buf)"
      with first show ?thesis by simp
    next
      assume "p \<in> set (stored_lines rest)"
      with "1.IH" fgets_shorter [OF f] show ?thesis by blast
    qed
  qed
qed

lemma split_lines_prepend:
  "LF \<notin> set b \<Longrightarrow> split_lines cur (b @ rest) = split_lines (cur @ b) rest"
  by (induction b arbitrary: cur) auto

lemma split_lines_hd:
  assumes "cur \<noteq> []"
  shows "\<exists>l' tl. split_lines cur s = (cur @ l') # tl"
proof (cases "LF \<in> set s")
  case True
  then obtain l rest where "s = l @ LF # rest" and "LF \<notin> set l"
    using first_line_split by blast
  then show ?thesis by (simp add: split_lines_line)
next
  case False
  with assms show ?thesis by (simp add: split_lines_last)
qed


lemma subseq_filter_Cons:
  "subseq xs (filter P ys) \<Longrightarrow> subseq xs (filter P (y # ys))"
  by auto

lemma kept_pieces:
  "subseq
     (filter (\<lambda>l. plain_line l \<and> \<not> is_keys_line l)
       (if cur = [] then split_lines [] s else tl (split_lines cur s)))
     (filter (\<lambda>p. \<not> is_keys_line p) (stored_lines s))"
proof (induction s arbitrary: cur rule: length_induct)
  case (1 s)
  let ?good = "\<lambda>l. plain_line l \<and> \<not> is_keys_line l"
  let ?nk = "\<lambda>p. \<not> is_keys_line p"
  show ?case
  proof (cases "fgets MAX_LINE_LENGTH s")
    case None
    then have "s = []" by (rule fgets_None)
    then show ?thesis by (simp add: stored_lines_Nil)
  next
    case (Some br)
    then obtain buf rest where f: "fgets MAX_LINE_LENGTH s = Some (buf, rest)"
      by (cases br) simp
    note shorter = fgets_shorter [OF f]
    have IH: "subseq (filter ?good (if c = [] then split_lines [] rest
        else tl (split_lines c rest))) (filter ?nk (stored_lines rest))" for c
      using "1.IH" shorter by blast
    from f show ?thesis
    proof (cases rule: fgets_cases)
      case (line l)
      have st: "stored_lines s = c_str l # stored_lines rest"
        using line(1,2) by (simp add: stored_lines_step [OF f] c_str_line)
      have lines: "split_lines c s = (c @ l) # split_lines [] rest" for c
        using line(2,3) by (simp add: split_lines_line)
      from IH [of "[]"] have rest: "subseq (filter ?good (split_lines [] rest))
          (filter ?nk (stored_lines rest))"
        by simp
      show ?thesis
      proof (cases "cur = [] \<and> ?good l")
        case True
        then have "c_str l = l"
          by (auto simp: plain_line_def list_all_iff intro: c_str_id)
        with True rest show ?thesis
          by (simp add: st lines)
      next
        case False
        have "subseq (filter ?good (split_lines [] rest)) (filter ?nk (stored_lines s))"
          unfolding st using rest by (rule subseq_filter_Cons)
        with False show ?thesis
          by (auto simp: lines)
      qed
    next
      case piece
      have st: "stored_lines s = c_str buf # stored_lines rest"
        using piece(1) by (simp add: stored_lines_step [OF f] c_str_piece)
      have lines: "split_lines c s = split_lines (c @ buf) rest" for c
        using piece(1,2) by (simp add: split_lines_prepend)
      from piece(3) IH [of "cur @ buf"] have rest:
        "subseq (filter ?good (tl (split_lines (cur @ buf) rest)))
          (filter ?nk (stored_lines rest))"
        by simp
      then have weak: "subseq (filter ?good (tl (split_lines (cur @ buf) rest)))
          (filter ?nk (stored_lines s))"
        unfolding st by (rule subseq_filter_Cons)
      show ?thesis
      proof (cases "cur = []")
        case False
        with weak show ?thesis by (simp add: lines)
      next
        case True
        from piece(3) obtain l' tl' where hd: "split_lines buf rest = (buf @ l') # tl'"
          using split_lines_hd [of buf rest] by auto
        show ?thesis
        proof (cases "?good (buf @ l')")
          case False
          with weak True show ?thesis by (auto simp: lines hd)
        next
          case good: True
          have "l' = []"
          proof (cases "rest = []")
            case True
            with hd piece(3) show ?thesis by simp
          next
            case False
            with piece(4) good show ?thesis
              by (simp add: plain_line_def MAX_LINE_LENGTH_def)
          qed
          with good have "c_str buf = buf"
            by (auto simp: plain_line_def list_all_iff intro: c_str_id)
          with good rest True \<open>l' = []\<close> show ?thesis
            by (simp add: st lines hd)
        qed
      qed
    qed
  qed
qed

lemma kept_lines:
  "subseq (filter (\<lambda>l. plain_line l \<and> \<not> is_keys_line l) (file_lines s))
     (filter (\<lambda>p. \<not> is_keys_line p) (stored_lines s))"
  using kept_pieces [of "[]" s] by (simp add: file_lines_def)

lemma subseq_snoc: "subseq (filter P ls) (ls @ [x])"
  by (metis subseq_filter_left subseq_order.trans prefixI prefix_imp_subseq)

lemma subseq_update:
  assumes "k < length ls" and "\<not> P (ls ! k)"
  shows "subseq (filter P ls) (ls[k := x])"
proof -
  have "ls = take k ls @ ls ! k # drop (Suc k) ls"
    using assms(1) by (rule id_take_nth_drop)
  then have "filter P ls = filter P (take k ls) @ filter P (drop (Suc k) ls)"
    using assms(2) by (metis filter.simps(2) filter_append)
  moreover have "ls[k := x] = take k ls @ x # drop (Suc k) ls"
    using assms(1) by (rule upd_conv_take_nth_drop)
  moreover have "subseq (filter P (take k ls) @ filter P (drop (Suc k) ls))
      (take k ls @ x # drop (Suc k) ls)"
    by (intro list_emb_append_mono list_emb_Cons) simp_all
  ultimately show ?thesis by simp
qed

lemma fprintf_all_None: "fprintf_all None bytes = bytes"
  by (simp add: fprintf_all_def)

lemma read_phase:
  "read_loop (content f) [] (- 1) =
     (stored_lines (content f), keys_index 0 (- 1) (stored_lines (content f)))"
  using read_loop_stored [of "content f" "[]" "- 1"] by simp

lemma token_line: "is_token t \<Longrightarrow>
  snprintf MAX_LINE_LENGTH (''api.security.keys='' @ c_str t) = keys_prefix @ t"
  using is_token_length [of t] is_token_chars(1) [of t]
  by (simp add: c_str_id snprintf_def MAX_LINE_LENGTH_def keys_prefix_def)

lemma add_key_appends:
  assumes "readable f" and "writable f" and "is_token t"
    and "\<forall>p\<in>set (stored_lines (content f)). \<not> is_keys_line p"
  shows "add_key_to_properties t f =
    \<lparr>ret = 0,
     rewritten = Some (fprintf_all (write_fails f)
       (write_lines (stored_lines (content f) @ [keys_prefix @ t]))),
     diag = [Text ''Warning: api.security.keys line not found, adding new line'']\<rparr>"
proof -
  have "keys_index 0 (- 1) (stored_lines (content f)) = - 1"
    using assms(4) by (rule keys_index_none)
  then show ?thesis
    using assms(1,2) token_line [OF assms(3)]
    by (simp add: add_key_to_properties_def read_phase)
qed

lemma add_key_updates:
  assumes "readable f" and "writable f" and "is_token t"
    and "k < length (stored_lines (content f))"
    and "is_keys_line (stored_lines (content f) ! k)"
    and "\<forall>j. k < j \<and> j < length (stored_lines (content f)) \<longrightarrow>
           \<not> is_keys_line (stored_lines (content f) ! j)"
    and "k < 2 ^ 31"
  shows "add_key_to_properties t f =
    \<lparr>ret = 0,
     rewritten = Some (fprintf_all (write_fails f)
       (write_lines ((stored_lines (content f))
         [k := snprintf MAX_LINE_LENGTH (stored_lines (content f) ! k @ '','' @ t)]))),
     diag = []\<rparr>"
proof -
  have "0 + k < 2 ^ 31"
    using assms(7) by simp
  from keys_index_last [OF assms(4,5,6) this, of "- 1"]
  have idx: "keys_index 0 (- 1) (stored_lines (content f)) = int k"
    by simp
  have "stored_lines (content f) ! k \<in> set (stored_lines (content f))"
    using assms(4) by simp
  then have "NUL \<notin> set (stored_lines (content f) ! k)"
    by (simp add: stored_pieces_free)
  then have old: "c_str (stored_lines (content f) ! k) = stored_lines (content f) ! k"
    by (rule c_str_id)
  have tok: "c_str t = t"
    using is_token_chars(1) [OF assms(3)] by (rule c_str_id)
  show ?thesis
    using assms(1,2,4)
    by (simp add: add_key_to_properties_def read_phase idx old tok)
qed


lemma add_key_keys_line:
  assumes "readable f" and "writable f" and "text_file (content f)" and "is_token t"
    and "k < length (file_lines (content f))"
    and "is_keys_line (file_lines (content f) ! k)"
    and "\<forall>j. k < j \<and> j < length (file_lines (content f)) \<longrightarrow>
           \<not> is_keys_line (file_lines (content f) ! j)"
    and "k < 2 ^ 31" and "write_fails f = None"
  shows "add_key_to_properties t f =
    \<lparr>ret = 0,
     rewritten = Some (write_lines ((file_lines (content f))
       [k := snprintf MAX_LINE_LENGTH (file_lines (content f) ! k @ '','' @ t)])),
     diag = []\<rparr>"
  using add_key_updates [OF assms(1,2,4), of k] assms(5-9) stored_lines_text [OF assms(3)]
  by (simp add: fprintf_all_None)

lemma stored_lines_long_line:
  assumes "0 < m" and "m < 1023"
  shows "stored_lines (replicate (1023 + m) (CHR ''x'') @ [LF]) =
    [replicate 1023 (CHR ''x''), replicate m (CHR ''x'')]"
proof -
  let ?c = "replicate 1023 (CHR ''x'')" and ?r = "replicate m (CHR ''x'')"
  have split: "replicate (1023 + m) (CHR ''x'') @ [LF] = ?c @ (?r @ LF # [])"
    by (simp add: replicate_add)
  have "stored_lines (?c @ (?r @ LF # [])) = ?c # stored_lines (?r @ LF # [])"
    by (rule stored_lines_chunk) (simp_all add: MAX_LINE_LENGTH_def)
  also have "stored_lines (?r @ LF # []) = ?r # stored_lines []"
    using assms
    by (intro stored_lines_line) (simp_all add: text_line_def MAX_LINE_LENGTH_def list_all_iff)
  finally show ?thesis
    by (simp add: split stored_lines_Nil)
qed

lemma add_key_long_line:
  assumes "0 < m" and "m < 1023" and "is_token t"
  shows "add_key_to_properties t
      \<lparr>readable = True, content = replicate (1023 + m) (CHR ''x'') @ [LF], writable = True,
       write_fails = None\<rparr> =
    \<lparr>ret = 0,
     rewritten = Some (replicate 1023 (CHR ''x'') @ LF # replicate m (CHR ''x'') @ LF #
       keys_prefix @ t @ [LF]),
     diag = [Text ''Warning: api.security.keys line not found, adding new line'']\<rparr>"
proof -
  let ?f = "\<lparr>readable = True, content = replicate (1023 + m) (CHR ''x'') @ [LF],
    writable = True, write_fails = None\<rparr>"
  have st: "stored_lines (content ?f) = [replicate 1023 (CHR ''x''), replicate m (CHR ''x'')]"
    using stored_lines_long_line [OF assms(1,2)] by simp
  have "\<forall>p\<in>set (stored_lines (content ?f)). \<not> is_keys_line p"
    by (simp only: st) (simp add: not_keys_replicate)
  from add_key_appends [OF _ _ assms(3) this] show ?thesis
    by (simp only: st) (simp add: fprintf_all_None write_lines_def)
qed

lemma stored_file_lines:
  assumes "LF \<notin> set x"
  shows "file_lines (write_lines (stored_lines c @ [x])) = stored_lines c @ [x]"
    and "file_lines (write_lines ((stored_lines c)[k := x])) = (stored_lines c)[k := x]"
proof -
  have free: "\<forall>l\<in>set (stored_lines c). LF \<notin> set l"
    by (simp add: stored_pieces_free)
  then show "file_lines (write_lines (stored_lines c @ [x])) = stored_lines c @ [x]"
    using assms by (intro file_lines_write_lines) auto
  from free assms have "\<forall>l\<in>set ((stored_lines c)[k := x]). LF \<notin> set l"
    by (rule list_update_LF_free)
  then show "file_lines (write_lines ((stored_lines c)[k := x])) = (stored_lines c)[k := x]"
    by (rule file_lines_write_lines)
qed

section \<open>The claims\<close>

subsection \<open>C1: which keys line is rewritten\<close>




subsection \<open>C2: the token is appended after a comma\<close>

text \<open>
  C2 (the code at the failing input): the keys line has a value of 980 bytes, 998
  bytes in all. \<open>snprintf\<close> cuts the new line to the 1023 bytes the buffer holds and
  the source does not look at its result: the line written is the old line, a comma
  and the first 24 of the 32 characters of the token, and the file is rewritten as if
  the key had been added.
\<close>

theorem C2_truncated_token:
  "rewritten (add_key_to_properties ''Zk3xQ9mB7tLp2VwYc8RfJ5nHs1DgA6uE''
     \<lparr>readable = True,
      content = keys_prefix @ replicate 980 (CHR ''x'') @ [LF],
      writable = True, write_fails = None\<rparr>) =
   Some (keys_prefix @ replicate 980 (CHR ''x'') @ '',Zk3xQ9mB7tLp2VwYc8RfJ5nH'' @ [LF])"
proof -
  let ?l = "keys_prefix @ replicate 980 (CHR ''x'')"
  let ?f = "\<lparr>readable = True, content = ?l @ [LF], writable = True, write_fails = None\<rparr>"
  have lf: "LF \<notin> set ?l" by (simp add: keys_prefix_def)
  have tl: "text_line ?l"
    by (simp add: text_line_def MAX_LINE_LENGTH_def keys_prefix_def list_all_iff)
  have tf: "text_file (content ?f)"
    using text_file_single [OF lf tl] by simp
  have ls: "file_lines (content ?f) = [?l]"
    using file_lines_single [OF lf] by simp
  have tok: "is_token ''Zk3xQ9mB7tLp2VwYc8RfJ5nHs1DgA6uE''" by code_simp
  have cut: "snprintf MAX_LINE_LENGTH
      (keys_prefix @ replicate 980 (CHR ''x'') @ '',Zk3xQ9mB7tLp2VwYc8RfJ5nHs1DgA6uE'') =
      keys_prefix @ replicate 980 (CHR ''x'') @ '',Zk3xQ9mB7tLp2VwYc8RfJ5nH''"
    unfolding snprintf_def MAX_LINE_LENGTH_def
    using take_prefix [of "?l @ '',Zk3xQ9mB7tLp2VwYc8RfJ5nH''" 1023 "''s1DgA6uE''"]
    by (simp add: keys_prefix_def)
  have k0: "0 < length (file_lines (content ?f))"
    by (simp only: ls) simp
  have k1: "is_keys_line (file_lines (content ?f) ! 0)"
    by (simp only: ls) (simp add: is_keys_line_append)
  have k2: "\<forall>j. 0 < j \<and> j < length (file_lines (content ?f)) \<longrightarrow>
      \<not> is_keys_line (file_lines (content ?f) ! j)"
    by (simp only: ls) simp
  have "rewritten (add_key_to_properties ''Zk3xQ9mB7tLp2VwYc8RfJ5nHs1DgA6uE'' ?f) =
      Some (write_lines ((file_lines (content ?f))[0 := snprintf MAX_LINE_LENGTH
        (file_lines (content ?f) ! 0 @ '','' @ ''Zk3xQ9mB7tLp2VwYc8RfJ5nHs1DgA6uE'')]))"
    using add_key_keys_line [OF _ _ tf tok k0 k1 k2] by simp
  then show ?thesis
    by (simp only: ls) (simp add: cut write_lines_def)
qed

subsection \<open>C3: the token generator\<close>

text \<open>
  C3: when the entropy device opens and \<open>read\<close> delivers 32 bytes \<open>bs\<close>,
  \<open>generate_api_key\<close> returns a token of length 32 whose \<open>i\<close>-th character is the
  character at index \<open>bs ! i mod 62\<close> of the alphabet \<open>charset\<close> (A to Z, a to z,
  0 to 9, 62 symbols), so every character of the token lies in the alphabet.
\<close>

theorem C3_token_from_entropy:
  assumes "urandom_opens w" and "urandom_read w = Some bs" and "length bs = 32"
  shows "generate_api_key w KEY_LENGTH = Returned (map (\<lambda>b. charset ! (unat b mod 62)) bs)
    \<and> length (map (\<lambda>b. charset ! (unat b mod 62)) bs) = 32
    \<and> (\<forall>i<32. map (\<lambda>b. charset ! (unat b mod 62)) bs ! i = charset ! (unat (bs ! i) mod 62))
    \<and> set (map (\<lambda>b. charset ! (unat b mod 62)) bs) \<subseteq> set charset
    \<and> length charset = 62"
proof -
  have "map (\<lambda>i. charset ! (unat (read_into (Some bs) 32 (stack w) i) mod 62)) [0..<32] =
        map (\<lambda>b. charset ! (unat b mod 62)) bs"
    using assms(3) by (intro nth_equalityI) (simp_all add: read_into_Some)
  then have "generate_api_key w KEY_LENGTH = Returned (map (\<lambda>b. charset ! (unat b mod 62)) bs)"
    using assms(1,2)
    by (simp add: generate_api_key_def KEY_LENGTH_def sizeof_charset_def charset_def)
  moreover have "set (map (\<lambda>b. charset ! (unat b mod 62)) bs) \<subseteq> set charset"
    using charset_nth_mem by auto
  moreover have "length charset = 62"
    by (simp add: charset_def)
  ultimately show ?thesis
    using assms(3) by simp
qed

theorem C3_token_from_entropy_witness:
  "generate_api_key
     \<lparr>urandom_opens = True,
      urandom_read = Some [0, 25, 26, 51, 52, 61, 62, 63, 100, 123, 124, 185, 186, 200, 247,
        248, 255, 7, 8, 9, 10, 11, 12, 13, 14, 15, 16, 17, 18, 19, 20, 21],
      stack = (\<lambda>i. 0),
      props = \<lparr>readable = True, content = [], writable = True, write_fails = None\<rparr>\<rparr> KEY_LENGTH
   = Returned ''AZaz09ABm9A9AO9AHHIJKLMNOPQRSTUV''"
  using C3_token_from_entropy [of
     "\<lparr>urandom_opens = True,
      urandom_read = Some [0, 25, 26, 51, 52, 61, 62, 63, 100, 123, 124, 185, 186, 200, 247,
        248, 255, 7, 8, 9, 10, 11, 12, 13, 14, 15, 16, 17, 18, 19, 20, 21],
      stack = (\<lambda>i. 0),
      props = \<lparr>readable = True, content = [], writable = True, write_fails = None\<rparr>\<rparr>"
     "[0, 25, 26, 51, 52, 61, 62, 63, 100, 123, 124, 185, 186, 200, 247,
        248, 255, 7, 8, 9, 10, 11, 12, 13, 14, 15, 16, 17, 18, 19, 20, 21]"]
  by (simp add: charset_def)

subsection \<open>C4: the other lines are kept\<close>

text \<open>
  C4 (amended): on every file that opens for reading and for writing and takes every
  write, of which the read loop stores at most \<open>2 ^ 31\<close> lines, the lines of the
  input that have no prefix \<open>api.security.keys=\<close>, at most 1023 bytes and no NUL
  byte stand in the output file with the same bytes and in the same order: they are a
  subsequence of the lines of the output.
\<close>

theorem C4_other_lines_preserved:
  assumes "readable f" and "writable f" and "write_fails f = None" and "is_token t"
    and "length (fst (read_loop (content f) [] (- 1))) \<le> 2 ^ 31"
  shows "\<exists>out. rewritten (add_key_to_properties t f) = Some out
    \<and> subseq (filter (\<lambda>l. plain_line l \<and> \<not> is_keys_line l) (file_lines (content f)))
        (file_lines out)"
proof -
  let ?st = "stored_lines (content f)"
  have kept: "subseq (filter (\<lambda>l. plain_line l \<and> \<not> is_keys_line l) (file_lines (content f)))
      (filter (\<lambda>p. \<not> is_keys_line p) ?st)"
    by (rule kept_lines)
  have count: "length ?st \<le> 2 ^ 31"
    using assms(5) by (simp add: read_phase)
  show ?thesis
  proof (cases "\<exists>p\<in>set ?st. is_keys_line p")
    case False
    then have none: "\<forall>p\<in>set ?st. \<not> is_keys_line p" by simp
    have "LF \<notin> set (keys_prefix @ t)"
      using keys_prefix_LF_free is_token_chars(2) [OF assms(4)] by simp
    then have lines: "file_lines (write_lines (?st @ [keys_prefix @ t])) = ?st @ [keys_prefix @ t]"
      by (rule stored_file_lines(1))
    have out: "rewritten (add_key_to_properties t f) = Some (write_lines (?st @ [keys_prefix @ t]))"
      using add_key_appends [OF assms(1,2,4) none] assms(3) by (simp add: fprintf_all_None)
    have "subseq (filter (\<lambda>p. \<not> is_keys_line p) ?st) (?st @ [keys_prefix @ t])"
      by (rule subseq_snoc)
    with kept have "subseq (filter (\<lambda>l. plain_line l \<and> \<not> is_keys_line l)
        (file_lines (content f))) (?st @ [keys_prefix @ t])"
      by (rule subseq_order.trans)
    with out lines show ?thesis by simp
  next
    case True
    then obtain k where k: "k < length ?st" "is_keys_line (?st ! k)"
      "\<forall>j. k < j \<and> j < length ?st \<longrightarrow> \<not> is_keys_line (?st ! j)"
      using last_keys_line_exists by blast
    let ?new = "snprintf MAX_LINE_LENGTH (?st ! k @ '','' @ t)"
    from k(1) count have small: "k < 2 ^ 31" by simp
    have "?st ! k \<in> set ?st"
      using k(1) by simp
    then have "LF \<notin> set (?st ! k)"
      by (simp add: stored_pieces_free)
    then have "LF \<notin> set ?new"
      using is_token_chars(2) [OF assms(4)] by (intro snprintf_LF_free) simp
    then have lines: "file_lines (write_lines (?st[k := ?new])) = ?st[k := ?new]"
      by (rule stored_file_lines(2))
    have out: "rewritten (add_key_to_properties t f) = Some (write_lines (?st[k := ?new]))"
      using add_key_updates [OF assms(1,2,4) k small] assms(3) by (simp add: fprintf_all_None)
    have "subseq (filter (\<lambda>p. \<not> is_keys_line p) ?st) (?st[k := ?new])"
      using k(1,2) by (intro subseq_update) simp_all
    with kept have "subseq (filter (\<lambda>l. plain_line l \<and> \<not> is_keys_line l)
        (file_lines (content f))) (?st[k := ?new])"
      by (rule subseq_order.trans)
    with out lines show ?thesis by simp
  qed
qed

theorem C4_other_lines_preserved_witness:
  "\<exists>out. rewritten (add_key_to_properties ''Zk3xQ9mB7tLp2VwYc8RfJ5nHs1DgA6uE''
       \<lparr>readable = True,
        content = ''server.port=8080\<newline>'' @ [CHR ''a'', NUL, CHR ''b'', LF] @
          ''api.security.keys=abc\<newline># end'',
        writable = True, write_fails = None\<rparr>) = Some out
     \<and> subseq [''server.port=8080'', ''# end''] (file_lines out)"
proof -
  let ?f = "\<lparr>readable = True,
        content = ''server.port=8080\<newline>'' @ [CHR ''a'', NUL, CHR ''b'', LF] @
          ''api.security.keys=abc\<newline># end'',
        writable = True, write_fails = None\<rparr>"
  have tok: "is_token ''Zk3xQ9mB7tLp2VwYc8RfJ5nHs1DgA6uE''" by code_simp
  have "length (stored_lines (content ?f)) = 4" by code_simp
  then have count: "length (fst (read_loop (content ?f) [] (- 1))) \<le> 2 ^ 31"
    by (simp only: read_phase fst_conv) simp
  have good: "filter (\<lambda>l. plain_line l \<and> \<not> is_keys_line l) (file_lines (content ?f)) =
      [''server.port=8080'', ''# end'']"
    by code_simp
  from C4_other_lines_preserved [of ?f, OF _ _ _ tok count]
  show ?thesis
    by (simp only: good) simp
qed

text \<open>
  The claim as stated (every line of every input file) fails on a line of 1024 bytes:
  \<open>fgets\<close> delivers it in two pieces, each piece is stored and written as a line of
  its own, and the line is no longer a line of the output. It fails on a line with a
  NUL byte too: the stored line ends at that byte.
\<close>

theorem C4_long_line_split_counterexample:
  "file_lines (replicate 1024 (CHR ''x'') @ [LF]) = [replicate 1024 (CHR ''x'')]
   \<and> \<not> is_keys_line (replicate 1024 (CHR ''x''))
   \<and> rewritten (add_key_to_properties ''Zk3xQ9mB7tLp2VwYc8RfJ5nHs1DgA6uE''
        \<lparr>readable = True, content = replicate 1024 (CHR ''x'') @ [LF], writable = True,
         write_fails = None\<rparr>) =
      Some (replicate 1023 (CHR ''x'') @ LF # ''x'' @ LF #
        keys_prefix @ ''Zk3xQ9mB7tLp2VwYc8RfJ5nHs1DgA6uE'' @ [LF])
   \<and> file_lines (replicate 1023 (CHR ''x'') @ LF # ''x'' @ LF #
        keys_prefix @ ''Zk3xQ9mB7tLp2VwYc8RfJ5nHs1DgA6uE'' @ [LF]) =
      [replicate 1023 (CHR ''x''), ''x'', keys_prefix @ ''Zk3xQ9mB7tLp2VwYc8RfJ5nHs1DgA6uE'']
   \<and> file_lines [CHR ''a'', NUL, CHR ''b'', LF] = [[CHR ''a'', NUL, CHR ''b'']]
   \<and> \<not> is_keys_line [CHR ''a'', NUL, CHR ''b'']
   \<and> rewritten (add_key_to_properties ''Zk3xQ9mB7tLp2VwYc8RfJ5nHs1DgA6uE''
        \<lparr>readable = True, content = [CHR ''a'', NUL, CHR ''b'', LF], writable = True,
         write_fails = None\<rparr>) =
      Some ''a\<newline>api.security.keys=Zk3xQ9mB7tLp2VwYc8RfJ5nHs1DgA6uE\<newline>''"
proof -
  have tok: "is_token ''Zk3xQ9mB7tLp2VwYc8RfJ5nHs1DgA6uE''" by code_simp
  have "rewritten (add_key_to_properties ''Zk3xQ9mB7tLp2VwYc8RfJ5nHs1DgA6uE''
        \<lparr>readable = True, content = replicate (1023 + 1) (CHR ''x'') @ [LF], writable = True,
         write_fails = None\<rparr>) =
      Some (replicate 1023 (CHR ''x'') @ LF # replicate 1 (CHR ''x'') @ LF #
        keys_prefix @ ''Zk3xQ9mB7tLp2VwYc8RfJ5nHs1DgA6uE'' @ [LF])"
    by (subst add_key_long_line [OF _ _ tok]) simp_all
  then have out: "rewritten (add_key_to_properties ''Zk3xQ9mB7tLp2VwYc8RfJ5nHs1DgA6uE''
        \<lparr>readable = True, content = replicate 1024 (CHR ''x'') @ [LF], writable = True,
         write_fails = None\<rparr>) =
      Some (replicate 1023 (CHR ''x'') @ LF # ''x'' @ LF #
        keys_prefix @ ''Zk3xQ9mB7tLp2VwYc8RfJ5nHs1DgA6uE'' @ [LF])"
    by simp
  have "file_lines (write_lines [replicate 1023 (CHR ''x''), ''x'',
        keys_prefix @ ''Zk3xQ9mB7tLp2VwYc8RfJ5nHs1DgA6uE'']) =
      [replicate 1023 (CHR ''x''), ''x'', keys_prefix @ ''Zk3xQ9mB7tLp2VwYc8RfJ5nHs1DgA6uE'']"
    by (rule file_lines_write_lines) (simp add: keys_prefix_def)
  then have lines: "file_lines (replicate 1023 (CHR ''x'') @ LF # ''x'' @ LF #
        keys_prefix @ ''Zk3xQ9mB7tLp2VwYc8RfJ5nHs1DgA6uE'' @ [LF]) =
      [replicate 1023 (CHR ''x''), ''x'', keys_prefix @ ''Zk3xQ9mB7tLp2VwYc8RfJ5nHs1DgA6uE'']"
    by (simp add: write_lines_def)
  have nul: "file_lines [CHR ''a'', NUL, CHR ''b'', LF] = [[CHR ''a'', NUL, CHR ''b'']]
     \<and> \<not> is_keys_line [CHR ''a'', NUL, CHR ''b'']
     \<and> rewritten (add_key_to_properties ''Zk3xQ9mB7tLp2VwYc8RfJ5nHs1DgA6uE''
        \<lparr>readable = True, content = [CHR ''a'', NUL, CHR ''b'', LF], writable = True,
         write_fails = None\<rparr>) =
      Some ''a\<newline>api.security.keys=Zk3xQ9mB7tLp2VwYc8RfJ5nHs1DgA6uE\<newline>''"
    by code_simp
  from out lines nul show ?thesis
    by (simp only: file_lines_long_line not_keys_replicate simp_thms)
qed

subsection \<open>C5: lines longer than the line buffer\<close>




subsection \<open>C6: a failed read of the entropy device\<close>

text \<open>
  C6 (the code at the failing input): the entropy device opens and \<open>read\<close> fails.
  The source ignores the return value of \<open>read\<close>, so the run goes on with whatever
  the buffer held (here zero bytes, which give the token of 32 letters A), rewrites the
  properties file and ends with exit status 0. Only a failed \<open>open\<close> ends the run
  with exit status 1.
\<close>

theorem C6_failed_read_ignored:
  "main \<lparr>urandom_opens = True, urandom_read = None, stack = (\<lambda>i. 0),
      props = \<lparr>readable = True, content = ''api.security.keys=abc\<newline>'',
        writable = True, write_fails = None\<rparr>\<rparr> =
   \<lparr>exit_status = 0,
    stdout = [''Generated API Key: AAAAAAAAAAAAAAAAAAAAAAAAAAAAAAAA'',
      ''API Key successfully added to application.properties''],
    stderr = [],
    written = Some ''api.security.keys=abc,AAAAAAAAAAAAAAAAAAAAAAAAAAAAAAAA\<newline>''\<rparr>"
  by code_simp

subsection \<open>C7: a file without a keys line\<close>



subsection \<open>C8: the token as the last element of the value\<close>




subsection \<open>C9: exit status and the rewritten file\<close>

text \<open>
  C9 (the code at the failing input): the file opens for reading and for writing, and
  a write fails when 20 bytes have reached the file. The source ignores the results of
  \<open>fprintf\<close> and \<open>fclose\<close> and returns 0: the file is left cut, the run reports
  that the key was added and ends with exit status 0.
\<close>

theorem C9_failed_write_ignored:
  "main \<lparr>urandom_opens = True, urandom_read = Some (replicate 32 7), stack = (\<lambda>i. 0),
      props = \<lparr>readable = True, content = ''server.port=8080\<newline>api.security.keys=abc\<newline>'',
        writable = True, write_fails = Some 20\<rparr>\<rparr> =
   \<lparr>exit_status = 0,
    stdout = [''Generated API Key: HHHHHHHHHHHHHHHHHHHHHHHHHHHHHHHH'',
      ''API Key successfully added to application.properties''],
    stderr = [],
    written = Some ''server.port=8080\<newline>api''\<rparr>"
  by code_simp

subsection \<open>C10: carriage returns\<close>

text \<open>
  C10 (the code at the failing input): the keys line has a value of 980 bytes and ends
  in carriage return and line feed. The carriage return is kept, but \<open>snprintf\<close>
  cuts the new line to 1023 bytes: the line written holds only the first 23 characters
  of the token.
\<close>

theorem C10_long_value:
  "rewritten (add_key_to_properties ''Zk3xQ9mB7tLp2VwYc8RfJ5nHs1DgA6uE''
     \<lparr>readable = True,
      content = keys_prefix @ replicate 980 (CHR ''x'') @ [CR, LF],
      writable = True, write_fails = None\<rparr>) =
   Some (keys_prefix @ replicate 980 (CHR ''x'') @ [CR] @ '',Zk3xQ9mB7tLp2VwYc8RfJ5n'' @ [LF])"
proof -
  let ?l = "keys_prefix @ replicate 980 (CHR ''x'') @ [CR]"
  let ?f = "\<lparr>readable = True, content = ?l @ [LF], writable = True, write_fails = None\<rparr>"
  have lf: "LF \<notin> set ?l" by (simp add: keys_prefix_def)
  have tl: "text_line ?l"
    by (simp add: text_line_def MAX_LINE_LENGTH_def keys_prefix_def list_all_iff)
  have tf: "text_file (content ?f)"
    using text_file_single [OF lf tl] by simp
  have ls: "file_lines (content ?f) = [?l]"
    using file_lines_single [OF lf] by simp
  have tok: "is_token ''Zk3xQ9mB7tLp2VwYc8RfJ5nHs1DgA6uE''" by code_simp
  have cut: "snprintf MAX_LINE_LENGTH
      (keys_prefix @ replicate 980 (CHR ''x'') @ CR # '',Zk3xQ9mB7tLp2VwYc8RfJ5nHs1DgA6uE'') =
      keys_prefix @ replicate 980 (CHR ''x'') @ CR # '',Zk3xQ9mB7tLp2VwYc8RfJ5n''"
    unfolding snprintf_def MAX_LINE_LENGTH_def
    using take_prefix [of "?l @ '',Zk3xQ9mB7tLp2VwYc8RfJ5n''" 1023 "''Hs1DgA6uE''"]
    by (simp add: keys_prefix_def)
  have k0: "0 < length (file_lines (content ?f))"
    by (simp only: ls) simp
  have k1: "is_keys_line (file_lines (content ?f) ! 0)"
    by (simp only: ls) (simp add: is_keys_line_append)
  have k2: "\<forall>j. 0 < j \<and> j < length (file_lines (content ?f)) \<longrightarrow>
      \<not> is_keys_line (file_lines (content ?f) ! j)"
    by (simp only: ls) simp
  have "rewritten (add_key_to_properties ''Zk3xQ9mB7tLp2VwYc8RfJ5nHs1DgA6uE'' ?f) =
      Some (write_lines ((file_lines (content ?f))[0 := snprintf MAX_LINE_LENGTH
        (file_lines (content ?f) ! 0 @ '','' @ ''Zk3xQ9mB7tLp2VwYc8RfJ5nHs1DgA6uE'')]))"
    using add_key_keys_line [OF _ _ tf tok k0 k1 k2] by simp
  then have "rewritten (add_key_to_properties ''Zk3xQ9mB7tLp2VwYc8RfJ5nHs1DgA6uE'' ?f) =
      Some (keys_prefix @ replicate 980 (CHR ''x'') @ CR # '',Zk3xQ9mB7tLp2VwYc8RfJ5n'' @ [LF])"
    by (simp only: ls) (simp add: cut write_lines_def)
  then show ?thesis by simp
qed

end
